theory Spec2Isabelle
  imports Complex_Main "HOL-Library.Char_ord" "HOL-Library.List_Lexorder" "HOL-Library.Multiset"
    "HOL-Library.Sublist"
begin

section \<open>Python values and exceptions\<close>

text \<open>
  The four loader scripts (\<^verbatim>\<open>import_csv_to_postgres.py\<close>, \<^verbatim>\<open>import_org_to_postgres.py\<close>,
  \<^verbatim>\<open>import_per_to_postgres.py\<close>, \<^verbatim>\<open>import_raw_feed_per_to_postgres.py\<close>) are copies of one
  pipeline. The functions below are translated from \<^verbatim>\<open>import_csv_to_postgres.py\<close> and
  \<^verbatim>\<open>import_per_to_postgres.py\<close>; what differs between the scripts is a field of the
  record \<open>script\<close> further down. \<^verbatim>\<open>import_org_to_postgres.py\<close> is
  \<^verbatim>\<open>import_csv_to_postgres.py\<close> without the docstrings and the single-file mode, and
  \<^verbatim>\<open>import_raw_feed_per_to_postgres.py\<close> is \<^verbatim>\<open>import_per_to_postgres.py\<close> with other columns,
  with the \<^verbatim>\<open>DROP TABLE\<close> and without the Duplicate Guard.

  A Python \<^verbatim>\<open>str\<close> is a \<open>string\<close>, one \<open>char\<close> per code point; code points above 255
  are outside the model. An exception is a value of \<open>error\<close>, and a function that can
  raise returns \<open>error + 'a\<close> with \<open>Inl\<close> for the exception.
\<close>

datatype error =
    ValueError
  | TypeError
  | OverflowError
  | FileNotFoundError
  | ReadError
  | DatabaseError
  | DuplicateTable

text \<open>
  A Python \<^verbatim>\<open>float\<close>: a finite value (kept as the rational number it denotes, with
  \<^verbatim>\<open>-0.0\<close> identified with \<^verbatim>\<open>0.0\<close>), an infinity or a NaN.
\<close>

datatype pyfloat = Finite rat | PosInf | NegInf | NaN

text \<open>The values \<^verbatim>\<open>process_row\<close> puts in a tuple: \<^verbatim>\<open>None\<close>, a bool, an int, a float or a str.\<close>

datatype pyval = PyNone | PyBool bool | PyInt int | PyFloat pyfloat | PyStr string

section \<open>The builtins \<^verbatim>\<open>str.lower\<close>, \<^verbatim>\<open>float\<close> and \<^verbatim>\<open>int\<close>\<close>

text \<open>
  \<^verbatim>\<open>str.lower\<close> on code points below 256: \<^verbatim>\<open>A\<close>..\<^verbatim>\<open>Z\<close> and the Latin-1 capitals
  (0xC0..0xDE without the multiplication sign 0xD7) move up by 32.
\<close>

definition lower_char :: "char \<Rightarrow> char" where
  "lower_char c =
     (let n = (of_char c :: nat)
      in if (65 \<le> n \<and> n \<le> 90) \<or> (192 \<le> n \<and> n \<le> 222 \<and> n \<noteq> 215)
         then char_of (n + 32) else c)"

definition lower :: "string \<Rightarrow> string" where
  "lower s = map lower_char s"

text \<open>
  \<^verbatim>\<open>float(s)\<close> follows the grammar of the language reference, after leading and trailing
  whitespace is removed:
  \<^verbatim>\<open>
  sign        ::= "+" | "-"
  infinity    ::= "Infinity" | "inf"          (case is not significant)
  nan         ::= "nan"
  digitpart   ::= digit (["_"] digit)*
  number      ::= [digitpart] "." digitpart | digitpart ["."]
  exponent    ::= ("e" | "E") [sign] digitpart
  floatnumber ::= number [exponent]
  floatvalue  ::= [sign] (floatnumber | infinity | nan)
  \<close>
  Anything else raises \<^verbatim>\<open>ValueError\<close>. The decimal value is rounded to the nearest
  binary64 number, ties to even, and a value that rounds beyond the largest finite
  binary64 number becomes an infinity.
\<close>

definition is_space :: "char \<Rightarrow> bool" where
  "is_space c = ((of_char c :: nat) \<in> {9, 10, 11, 12, 13, 32, 133, 160})"

definition strip :: "string \<Rightarrow> string" where
  "strip s = rev (dropWhile is_space (rev (dropWhile is_space s)))"

definition is_digit :: "char \<Rightarrow> bool" where
  "is_digit c = (48 \<le> (of_char c :: nat) \<and> (of_char c :: nat) \<le> 57)"

definition digit_val :: "char \<Rightarrow> nat" where
  "digit_val c = of_char c - 48"

text \<open>
  \<open>digits_tl v k s\<close> reads \<^verbatim>\<open>(["_"] digit)*\<close> from \<open>s\<close>: the value so far is \<open>v\<close>, the number of
  digits read is \<open>k\<close>; it returns both with the unread rest.
\<close>

fun digits_tl :: "nat \<Rightarrow> nat \<Rightarrow> string \<Rightarrow> nat \<times> nat \<times> string" where
  "digits_tl v k [] = (v, k, [])"
| "digits_tl v k [c] =
     (if is_digit c then (10 * v + digit_val c, Suc k, []) else (v, k, [c]))"
| "digits_tl v k (c # d # s) =
     (if is_digit c then digits_tl (10 * v + digit_val c) (Suc k) (d # s)
      else if c = CHR ''_'' \<and> is_digit d then digits_tl (10 * v + digit_val d) (Suc k) s
      else (v, k, c # d # s))"

definition digitpart :: "string \<Rightarrow> (nat \<times> nat \<times> string) option" where
  "digitpart s =
     (case s of
        [] \<Rightarrow> None
      | c # r \<Rightarrow> if is_digit c then Some (digits_tl (digit_val c) 1 r) else None)"

text \<open>\<open>number s\<close> returns the digits as one natural number, how many of them follow the point, and the rest.\<close>

definition number :: "string \<Rightarrow> (nat \<times> nat \<times> string) option" where
  "number s =
     (case digitpart s of
        Some (i, _, r) \<Rightarrow>
          (case r of
             [] \<Rightarrow> Some (i, 0, r)
           | c # r' \<Rightarrow>
               if c = CHR ''.'' then
                 (case digitpart r' of
                    Some (f, k, r'') \<Rightarrow> Some (i * 10 ^ k + f, k, r'')
                  | None \<Rightarrow> Some (i, 0, r'))
               else Some (i, 0, r))
      | None \<Rightarrow>
          (case s of
             [] \<Rightarrow> None
           | c # r' \<Rightarrow> if c = CHR ''.'' then digitpart r' else None))"

text \<open>\<open>exponent s\<close> is the decimal exponent when \<open>s\<close> is empty or an exponent part, and \<open>None\<close> otherwise.\<close>

definition exponent :: "string \<Rightarrow> int option" where
  "exponent s =
     (case s of
        [] \<Rightarrow> Some 0
      | c # r \<Rightarrow>
          if c = CHR ''e'' \<or> c = CHR ''E'' then
            (case r of
               [] \<Rightarrow> None
             | g # r' \<Rightarrow>
                 (case digitpart (if g = CHR ''+'' \<or> g = CHR ''-'' then r' else r) of
                    Some (n, _, []) \<Rightarrow> Some (if g = CHR ''-'' then - int n else int n)
                  | _ \<Rightarrow> None))
          else None)"

text \<open>
  \<open>floatnumber s\<close> is the exact value \<open>n / d\<close> of the decimal literal \<open>s\<close>, as numerator and
  nonzero denominator.
\<close>

definition floatnumber :: "string \<Rightarrow> (nat \<times> nat) option" where
  "floatnumber s =
     (case number s of
        None \<Rightarrow> None
      | Some (m, k, r) \<Rightarrow>
          (case exponent r of
             None \<Rightarrow> None
           | Some x \<Rightarrow>
               let e = x - int k
               in if 0 \<le> e then Some (m * 10 ^ nat e, 1) else Some (m, 10 ^ nat (- e))))"

text \<open>Rounding \<open>n / d\<close> to binary64, in integer arithmetic.\<close>

fun bit_length :: "nat \<Rightarrow> nat" where
  "bit_length n = (if n = 0 then 0 else Suc (bit_length (n div 2)))"

declare bit_length.simps [simp del]

text \<open>\<open>scaled n d p\<close> is \<open>n / d / 2 ^ p\<close> as a fraction of natural numbers.\<close>

definition scaled :: "nat \<Rightarrow> nat \<Rightarrow> int \<Rightarrow> nat \<times> nat" where
  "scaled n d p = (if 0 \<le> p then (n, d * 2 ^ nat p) else (n * 2 ^ nat (- p), d))"

definition round_half_even :: "nat \<times> nat \<Rightarrow> nat" where
  "round_half_even nd =
     (let n = fst nd; d = snd nd; q = n div d; r = n mod d
      in if 2 * r < d then q
         else if d < 2 * r then q + 1
         else if even q then q else q + 1)"

definition pow2 :: "int \<Rightarrow> rat" where
  "pow2 p = (if 0 \<le> p then 2 ^ nat p else 1 / 2 ^ nat (- p))"

text \<open>
  \<open>round_double neg n d\<close>: the binary64 value nearest to \<open>n / d\<close> (negated when \<open>neg\<close>).
  With \<open>2 ^ e \<le> n / d < 2 ^ (e + 1)\<close> the spacing of binary64 numbers there is
  \<open>2 ^ p\<close> for \<open>p = max e (-1022) - 52\<close>; the rounded value is \<open>m * 2 ^ p\<close>, and it is
  \<open>2 ^ 1024\<close> or more exactly when \<open>m\<close> has more than \<open>1024 - p\<close> bits.
\<close>

definition round_double :: "bool \<Rightarrow> nat \<Rightarrow> nat \<Rightarrow> pyfloat" where
  "round_double neg n d =
     (if n = 0 then Finite 0
      else
        let k = int (bit_length n) - int (bit_length d);
            e = (if snd (scaled n d k) \<le> fst (scaled n d k) then k else k - 1);
            p = max e (- 1022) - 52;
            m = round_half_even (scaled n d p)
        in if 1024 < int (bit_length m) + p then (if neg then NegInf else PosInf)
           else Finite ((if neg then - 1 else 1) * of_nat m * pow2 p))"

definition py_float :: "string \<Rightarrow> error + pyfloat" where
  "py_float s =
     (let t = strip s;
          neg = (t \<noteq> [] \<and> hd t = CHR ''-'');
          u = (if t \<noteq> [] \<and> (hd t = CHR ''+'' \<or> hd t = CHR ''-'') then tl t else t)
      in if lower u \<in> {''inf'', ''infinity''} then Inr (if neg then NegInf else PosInf)
         else if lower u = ''nan'' then Inr NaN
         else (case floatnumber u of
                 None \<Rightarrow> Inl ValueError
               | Some (n, d) \<Rightarrow> Inr (round_double neg n d)))"

text \<open>
  \<^verbatim>\<open>int(x)\<close> of a float truncates towards zero; it raises \<^verbatim>\<open>ValueError\<close> on a NaN and
  \<^verbatim>\<open>OverflowError\<close> on an infinity.
\<close>

definition py_int :: "pyfloat \<Rightarrow> error + int" where
  "py_int x =
     (case x of
        Finite q \<Rightarrow> Inr (if 0 \<le> q then \<lfloor>q\<rfloor> else \<lceil>q\<rceil>)
      | NaN \<Rightarrow> Inl ValueError
      | _ \<Rightarrow> Inl OverflowError)"

section \<open>The Value Coercer\<close>

text \<open>
  \<^verbatim>\<open>clean_value\<close> tests membership in a tuple of three literals: the raw literal of a
  backslash and \<^verbatim>\<open>N\<close>, the escaped literal of a backslash and \<^verbatim>\<open>N\<close>, and the empty string.
  The raw and the escaped literal are the same two-character string. The value is
  \<^verbatim>\<open>None\<close> when \<^verbatim>\<open>csv.DictReader\<close> filled a short line; \<^verbatim>\<open>None\<close> is not in the tuple and
  is returned as it is.
\<close>

definition raw_backslash_N :: string where
  "raw_backslash_N = [CHR 0x5C, CHR ''N'']"

definition escaped_backslash_N :: string where
  "escaped_backslash_N = [CHR 0x5C, CHR ''N'']"

definition clean_value :: "string option \<Rightarrow> string option" where
  "clean_value v =
     (if v \<in> set [Some raw_backslash_N, Some escaped_backslash_N, Some ''''] then None else v)"

definition parse_boolean :: "string option \<Rightarrow> bool option" where
  "parse_boolean v =
     (case v of
        None \<Rightarrow> None
      | Some s \<Rightarrow>
          if s = '''' then None
          else if lower s \<in> set [''true'', ''t'', ''1'', ''yes''] then Some True
          else if lower s \<in> set [''false'', ''f'', ''0'', ''no''] then Some False
          else None)"

text \<open>
  \<^verbatim>\<open>parse_integer\<close> and \<^verbatim>\<open>parse_numeric\<close> catch \<^verbatim>\<open>(ValueError, TypeError)\<close>; any other
  exception leaves the function.
\<close>

definition parse_integer :: "string option \<Rightarrow> error + int option" where
  "parse_integer v =
     (case v of
        None \<Rightarrow> Inr None
      | Some s \<Rightarrow>
          if s = '''' then Inr None
          else
            (case (case py_float s of Inl e \<Rightarrow> Inl e | Inr x \<Rightarrow> py_int x) of
               Inr i \<Rightarrow> Inr (Some i)
             | Inl e \<Rightarrow> if e \<in> {ValueError, TypeError} then Inr None else Inl e))"

definition parse_numeric :: "string option \<Rightarrow> error + pyfloat option" where
  "parse_numeric v =
     (case v of
        None \<Rightarrow> Inr None
      | Some s \<Rightarrow>
          if s = '''' then Inr None
          else
            (case py_float s of
               Inr x \<Rightarrow> Inr (Some x)
             | Inl e \<Rightarrow> if e \<in> {ValueError, TypeError} then Inr None else Inl e))"

text \<open>
  The second component of a \<^verbatim>\<open>COLUMN_DEFINITIONS\<close> entry. The scripts write it as one of
  these six strings.
\<close>

datatype col_type = TEXT | INTEGER | NUMERIC | BOOLEAN | DATE | TIMESTAMP

text \<open>
  What differs between the scripts: the column list, whether \<^verbatim>\<open>process_row\<close> has the
  \<^verbatim>\<open>NUMERIC\<close> branch (\<^verbatim>\<open>import_csv_to_postgres.py\<close> and \<^verbatim>\<open>import_org_to_postgres.py\<close> have
  it), whether \<^verbatim>\<open>create_table\<close> executes \<^verbatim>\<open>DROP TABLE IF EXISTS\<close> (commented out in
  \<^verbatim>\<open>import_per_to_postgres.py\<close> only), and whether the file loop calls
  \<^verbatim>\<open>is_csv_file_imported\<close> (\<^verbatim>\<open>import_per_to_postgres.py\<close> only).
\<close>

record script =
  COLUMN_DEFINITIONS :: "(string \<times> col_type) list"
  numeric_branch :: bool
  drops_table :: bool
  checks_imported :: bool

text \<open>
  A row of \<^verbatim>\<open>csv.DictReader\<close>: a dict from the header's names to a field, or to \<^verbatim>\<open>None\<close>
  where the line was short. \<open>row_get\<close> is \<^verbatim>\<open>row.get(col_name, '')\<close>.
\<close>

type_synonym raw_record = "string \<rightharpoonup> string option"

definition row_get :: "raw_record \<Rightarrow> string \<Rightarrow> string option" where
  "row_get row col_name = (case row col_name of None \<Rightarrow> Some '''' | Some field \<Rightarrow> field)"

definition of_opt :: "('a \<Rightarrow> pyval) \<Rightarrow> 'a option \<Rightarrow> pyval" where
  "of_opt f v = (case v of None \<Rightarrow> PyNone | Some x \<Rightarrow> f x)"

text \<open>
  The body of the loop of \<^verbatim>\<open>process_row\<close>, after \<^verbatim>\<open>value = clean_value(...)\<close>: the
  \<^verbatim>\<open>if\<close>/\<^verbatim>\<open>elif\<close> chain on \<^verbatim>\<open>col_type\<close>.
\<close>

definition convert :: "script \<Rightarrow> col_type \<Rightarrow> string option \<Rightarrow> error + pyval" where
  "convert sc col_type v =
     (if col_type = BOOLEAN then Inr (of_opt PyBool (parse_boolean v))
      else if col_type = INTEGER then map_sum id (of_opt PyInt) (parse_integer v)
      else if col_type = NUMERIC \<and> numeric_branch sc then map_sum id (of_opt PyFloat) (parse_numeric v)
      else Inr (of_opt PyStr v))"

text \<open>The Value Coercer of one field: \<^verbatim>\<open>clean_value\<close>, then the branch of its type.\<close>

definition coerce :: "script \<Rightarrow> col_type \<Rightarrow> string option \<Rightarrow> error + pyval" where
  "coerce sc col_type raw = convert sc col_type (clean_value raw)"

fun process_columns :: "script \<Rightarrow> (string \<times> col_type) list \<Rightarrow> raw_record \<Rightarrow> error + pyval list" where
  "process_columns sc [] row = Inr []"
| "process_columns sc ((col_name, col_type) # cols) row =
     (case coerce sc col_type (row_get row col_name) of
        Inl e \<Rightarrow> Inl e
      | Inr v \<Rightarrow>
          (case process_columns sc cols row of
             Inl e \<Rightarrow> Inl e
           | Inr vs \<Rightarrow> Inr (v # vs)))"

definition process_row :: "script \<Rightarrow> raw_record \<Rightarrow> error + pyval list" where
  "process_row sc row = process_columns sc (COLUMN_DEFINITIONS sc) row"

section \<open>The Source Enumerator\<close>

text \<open>
  The directories: a folder path is mapped to the names of its entries, in the order the
  operating system lists them; a path that does not exist is mapped to \<open>None\<close>.
  \<^verbatim>\<open>folder.glob('*.csv')\<close> yields the entries whose name ends in \<^verbatim>\<open>.csv\<close>, and \<^verbatim>\<open>str(f)\<close> of an
  entry is the folder path (as \<^verbatim>\<open>pathlib\<close> prints it), a slash and the name.
\<close>

type_synonym folders = "string \<rightharpoonup> string list"

definition endswith :: "string \<Rightarrow> string \<Rightarrow> bool" where
  "endswith s ending = (length ending \<le> length s \<and> drop (length s - length ending) s = ending)"

definition glob :: "string \<Rightarrow> string list \<Rightarrow> string \<Rightarrow> string list" where
  "glob folder_path entries ending =
     map (\<lambda>name. folder_path @ ''/'' @ name) (filter (\<lambda>name. endswith name ending) entries)"

definition get_csv_files :: "folders \<Rightarrow> string \<Rightarrow> error + string list" where
  "get_csv_files dirs folder_path =
     (case dirs folder_path of
        None \<Rightarrow> Inl FileNotFoundError
      | Some entries \<Rightarrow>
          Inr (sort (glob folder_path entries ''.csv'' @ glob folder_path entries ''.csv.gz'')))"

section \<open>The Row Decoder and the sink\<close>

text \<open>
  \<^verbatim>\<open>csv.DictReader\<close> over an opened file is modelled by what the loops observe of it: the
  rows it yields, and the exception that ends the iteration early if there is one
  (a decoding error, a truncated gzip stream). A path that cannot be opened is mapped
  to \<open>None\<close>.
\<close>

type_synonym csv_file = "raw_record list \<times> error option"

type_synonym files = "string \<rightharpoonup> csv_file"

text \<open>
  The sink, as far as the scripts use it, is one table in one connection. \<open>durable\<close> is
  the committed content of the table (\<open>None\<close>: there is no table) and \<open>session\<close> the content
  the open transaction sees; the generated \<^verbatim>\<open>id\<close> and \<^verbatim>\<open>created_at\<close> columns are left out.
  \<open>calls\<close> records every \<^verbatim>\<open>execute_batch\<close> call with its batch and whether it completed.
  Every statement sent to the sink can raise: \<open>faulty d n\<close> says that the \<open>n\<close>-th statement
  does, and \<open>ops\<close> counts the statements sent so far. A statement that raises changes
  nothing else.
\<close>

type_synonym row = "pyval list"

record db =
  durable :: "row list option"
  session :: "row list option"
  calls :: "(row list \<times> bool) list"
  ops :: nat
  faulty :: "nat \<Rightarrow> bool"

definition execute_batch :: "row list \<Rightarrow> db \<Rightarrow> (error + unit) \<times> db" where
  "execute_batch batch d =
     (if faulty d (ops d) \<or> session d = None
      then (Inl DatabaseError, d\<lparr>ops := ops d + 1, calls := calls d @ [(batch, False)]\<rparr>)
      else (Inr (), d\<lparr>ops := ops d + 1, calls := calls d @ [(batch, True)],
                       session := Some (the (session d) @ batch)\<rparr>))"

definition commit :: "db \<Rightarrow> (error + unit) \<times> db" where
  "commit d =
     (if faulty d (ops d) then (Inl DatabaseError, d\<lparr>ops := ops d + 1\<rparr>)
      else (Inr (), d\<lparr>ops := ops d + 1, durable := session d\<rparr>))"

definition rollback :: "db \<Rightarrow> db" where
  "rollback d = d\<lparr>session := durable d\<rparr>"

text \<open>
  One piece of the \<^verbatim>\<open>WHERE\<close> clause of the probe, and whether a stored row satisfies it;
  the table's columns are the names of \<^verbatim>\<open>COLUMN_DEFINITIONS\<close>, in order.
\<close>

datatype cond = IsNull string | Equals string pyval

fun holds :: "string list \<Rightarrow> row \<Rightarrow> cond \<Rightarrow> bool" where
  "holds columns r (IsNull col) = (map_of (zip columns r) col = Some PyNone)"
| "holds columns r (Equals col v) = (v \<noteq> PyNone \<and> map_of (zip columns r) col = Some v)"

text \<open>\<^verbatim>\<open>SELECT 1 FROM table WHERE ... LIMIT 1\<close> followed by \<^verbatim>\<open>cursor.fetchone()\<close>.\<close>

definition select_one :: "string list \<Rightarrow> cond list \<Rightarrow> db \<Rightarrow> (error + bool) \<times> db" where
  "select_one columns where_clause d =
     (if faulty d (ops d) \<or> session d = None then (Inl DatabaseError, d\<lparr>ops := ops d + 1\<rparr>)
      else (Inr (\<exists>r \<in> set (the (session d)). \<forall>c \<in> set where_clause. holds columns r c),
            d\<lparr>ops := ops d + 1\<rparr>))"

section \<open>The Table Provisioner\<close>

text \<open>
  \<^verbatim>\<open>create_table\<close> executes \<^verbatim>\<open>DROP TABLE IF EXISTS ... CASCADE\<close> (not in
  \<^verbatim>\<open>import_per_to_postgres.py\<close>, where the line is commented out) and then \<^verbatim>\<open>CREATE TABLE\<close>,
  written without \<^verbatim>\<open>IF NOT EXISTS\<close>: the sink raises when the table exists.
\<close>

definition drop_table_if_exists :: "db \<Rightarrow> (error + unit) \<times> db" where
  "drop_table_if_exists d =
     (if faulty d (ops d) then (Inl DatabaseError, d\<lparr>ops := ops d + 1\<rparr>)
      else (Inr (), d\<lparr>ops := ops d + 1, session := None\<rparr>))"

definition create_table_stmt :: "db \<Rightarrow> (error + unit) \<times> db" where
  "create_table_stmt d =
     (if faulty d (ops d) then (Inl DatabaseError, d\<lparr>ops := ops d + 1\<rparr>)
      else if session d \<noteq> None then (Inl DuplicateTable, d\<lparr>ops := ops d + 1\<rparr>)
      else (Inr (), d\<lparr>ops := ops d + 1, session := Some []\<rparr>))"

definition create_table :: "script \<Rightarrow> db \<Rightarrow> (error + unit) \<times> db" where
  "create_table sc d =
     (if drops_table sc then
        (case drop_table_if_exists d of
           (Inl e, d') \<Rightarrow> (Inl e, d')
         | (Inr _, d') \<Rightarrow> create_table_stmt d')
      else create_table_stmt d)"

text \<open>
  \<^verbatim>\<open>create_indexes\<close> sends six \<^verbatim>\<open>CREATE INDEX IF NOT EXISTS\<close> statements and swallows the
  exception of each; no row changes.
\<close>

definition create_indexes :: "db \<Rightarrow> db" where
  "create_indexes d = d\<lparr>ops := ops d + 6\<rparr>"

section \<open>The Duplicate Guard\<close>

definition where_clause_pieces :: "string list \<Rightarrow> row \<Rightarrow> cond list" where
  "where_clause_pieces columns processed_row =
     map (\<lambda>(col, v). if v = PyNone then IsNull col else Equals col v) (zip columns processed_row)"

text \<open>
  \<^verbatim>\<open>is_csv_file_imported\<close>: the whole body is inside \<^verbatim>\<open>try\<close>, and \<^verbatim>\<open>except Exception\<close> returns
  \<^verbatim>\<open>False\<close>. The loop returns in its first iteration; when the reader yields no row the
  function falls through to \<^verbatim>\<open>return False\<close>.
\<close>

definition is_csv_file_imported :: "script \<Rightarrow> files \<Rightarrow> string \<Rightarrow> db \<Rightarrow> bool \<times> db" where
  "is_csv_file_imported sc fs csv_file_path d =
     (let columns = map fst (COLUMN_DEFINITIONS sc)
      in case fs csv_file_path of
           None \<Rightarrow> (False, d)
         | Some (rows, err) \<Rightarrow>
             (case rows of
                [] \<Rightarrow> (False, d)
              | r # _ \<Rightarrow>
                  (case process_row sc r of
                     Inl e \<Rightarrow> (False, d)
                   | Inr processed_row \<Rightarrow>
                       (case select_one columns (where_clause_pieces columns processed_row) d of
                          (Inl e, d') \<Rightarrow> (False, d')
                        | (Inr found, d') \<Rightarrow> (found, d')))))"

section \<open>The Bulk Loader\<close>

text \<open>
  The \<^verbatim>\<open>for row in reader\<close> loop of \<^verbatim>\<open>import_csv_data\<close>, on the state
  \<open>(total_rows, batch, sink)\<close>. The body is inside \<^verbatim>\<open>try\<close>/\<^verbatim>\<open>except Exception: continue\<close>: a
  row that \<^verbatim>\<open>process_row\<close> rejects is skipped, and when \<^verbatim>\<open>execute_batch\<close> raises the two
  statements after it are skipped, so \<^verbatim>\<open>total_rows\<close> and \<^verbatim>\<open>batch\<close> stay as they are.
\<close>

fun import_rows :: "script \<Rightarrow> int \<Rightarrow> raw_record list \<Rightarrow> nat \<times> row list \<times> db \<Rightarrow> nat \<times> row list \<times> db" where
  "import_rows sc batch_size [] st = st"
| "import_rows sc batch_size (r # rows) (total_rows, batch, d) =
     (case process_row sc r of
        Inl e \<Rightarrow> import_rows sc batch_size rows (total_rows, batch, d)
      | Inr processed_row \<Rightarrow>
          (let batch' = batch @ [processed_row]
           in if batch_size \<le> int (length batch') then
                (case execute_batch batch' d of
                   (Inl e, d') \<Rightarrow> import_rows sc batch_size rows (total_rows, batch', d')
                 | (Inr _, d') \<Rightarrow> import_rows sc batch_size rows (total_rows + length batch', [], d'))
              else import_rows sc batch_size rows (total_rows, batch', d)))"

text \<open>
  \<^verbatim>\<open>import_csv_data\<close>: an exception of \<^verbatim>\<open>open_csv_file\<close>, of the reader or of the last
  \<^verbatim>\<open>execute_batch\<close> is outside the inner \<^verbatim>\<open>try\<close>; it is logged and raised again.
\<close>

definition import_csv_data :: "script \<Rightarrow> files \<Rightarrow> string \<Rightarrow> int \<Rightarrow> db \<Rightarrow> (error + nat) \<times> db" where
  "import_csv_data sc fs csv_file_path batch_size d =
     (case fs csv_file_path of
        None \<Rightarrow> (Inl FileNotFoundError, d)
      | Some (rows, err) \<Rightarrow>
          (case import_rows sc batch_size rows (0, [], d) of
             (total_rows, batch, d1) \<Rightarrow>
               (case err of
                  Some e \<Rightarrow> (Inl e, d1)
                | None \<Rightarrow>
                    if batch \<noteq> [] then
                      (case execute_batch batch d1 of
                         (Inl e, d2) \<Rightarrow> (Inl e, d2)
                       | (Inr _, d2) \<Rightarrow> (Inr (total_rows + length batch), d2))
                    else (Inr total_rows, d1))))"

text \<open>
  What the file loop logs for one file: skipped by the Duplicate Guard, imported with
  its row count, or failed.
\<close>

datatype outcome = Skipped | Imported nat | Failed error

text \<open>
  The loop of \<^verbatim>\<open>import_multiple_files\<close> (\<^verbatim>\<open>import_multiple_csv_files\<close> in
  \<^verbatim>\<open>import_csv_to_postgres.py\<close>, which has no Duplicate Guard) on the state
  \<open>(total_rows, seen, sink)\<close>, where \<open>seen\<close> is what was logged for each file so far. The body is inside \<^verbatim>\<open>try\<close>/\<^verbatim>\<open>except Exception: continue\<close>; the
  handler logs the failure and does nothing to the connection. \<^verbatim>\<open>total_rows\<close> is
  increased before \<^verbatim>\<open>cursor.connection.commit()\<close>.
\<close>

fun import_files :: "script \<Rightarrow> files \<Rightarrow> int \<Rightarrow> string list \<Rightarrow> nat \<times> outcome list \<times> db \<Rightarrow> nat \<times> outcome list \<times> db" where
  "import_files sc fs batch_size [] st = st"
| "import_files sc fs batch_size (csv_file # rest) (total_rows, seen, d) =
     (case (if checks_imported sc then is_csv_file_imported sc fs csv_file d else (False, d)) of
        (True, d1) \<Rightarrow> import_files sc fs batch_size rest (total_rows, seen @ [Skipped], d1)
      | (False, d1) \<Rightarrow>
          (case import_csv_data sc fs csv_file batch_size d1 of
             (Inl e, d2) \<Rightarrow> import_files sc fs batch_size rest (total_rows, seen @ [Failed e], d2)
           | (Inr rows_imported, d2) \<Rightarrow>
               (case commit d2 of
                  (Inl e, d3) \<Rightarrow>
                    import_files sc fs batch_size rest (total_rows + rows_imported, seen @ [Failed e], d3)
                | (Inr _, d3) \<Rightarrow>
                    import_files sc fs batch_size rest
                      (total_rows + rows_imported, seen @ [Imported rows_imported], d3))))"

definition import_multiple_files :: "script \<Rightarrow> files \<Rightarrow> string list \<Rightarrow> int \<Rightarrow> db \<Rightarrow> nat \<times> outcome list \<times> db" where
  "import_multiple_files sc fs csv_files batch_size d = import_files sc fs batch_size csv_files (0, [], d)"

section \<open>One run of a script\<close>

text \<open>
  \<^verbatim>\<open>main\<close> in folder mode, with the default batch size 1000: connect, \<^verbatim>\<open>create_table\<close>,
  commit, list the folder, import, \<^verbatim>\<open>create_indexes\<close>, commit, two statistics queries.
  Any exception ends in \<^verbatim>\<open>connection.rollback()\<close> and \<^verbatim>\<open>sys.exit(1)\<close>; an empty folder
  ends in \<^verbatim>\<open>sys.exit(1)\<close>. The connection is closed on every path, which discards what
  was not committed. The result is the exit status and the sink.
\<close>

definition connect :: "db \<Rightarrow> db" where
  "connect d = d\<lparr>session := durable d\<rparr>"

definition statistics :: "db \<Rightarrow> (error + unit) \<times> db" where
  "statistics d =
     (if faulty d (ops d) \<or> faulty d (ops d + 1) \<or> session d = None
      then (Inl DatabaseError, d\<lparr>ops := ops d + 2\<rparr>)
      else (Inr (), d\<lparr>ops := ops d + 2\<rparr>))"

definition main :: "script \<Rightarrow> folders \<Rightarrow> files \<Rightarrow> string \<Rightarrow> db \<Rightarrow> nat \<times> db" where
  "main sc dirs fs folder_path d0 =
     (case create_table sc (connect d0) of
        (Inl e, d1) \<Rightarrow> (1, rollback d1)
      | (Inr _, d1) \<Rightarrow>
          (case commit d1 of
             (Inl e, d2) \<Rightarrow> (1, rollback d2)
           | (Inr _, d2) \<Rightarrow>
               (case get_csv_files dirs folder_path of
                  Inl e \<Rightarrow> (1, rollback d2)
                | Inr csv_files \<Rightarrow>
                    if csv_files = [] then (1, rollback d2)
                    else
                      (case import_multiple_files sc fs csv_files 1000 d2 of
                         (total_rows, seen, d3) \<Rightarrow>
                           (case commit (create_indexes d3) of
                              (Inl e, d4) \<Rightarrow> (1, rollback d4)
                            | (Inr _, d4) \<Rightarrow>
                                (case statistics d4 of
                                   (Inl e, d5) \<Rightarrow> (1, rollback d5)
                                 | (Inr _, d5) \<Rightarrow> (0, rollback d5)))))))"

section \<open>The two scripts\<close>

text \<open>
  \<^verbatim>\<open>import_csv_to_postgres.py\<close> (and \<^verbatim>\<open>import_org_to_postgres.py\<close>, which has the same
  columns): \<^verbatim>\<open>create_table\<close> drops the table, there is no Duplicate Guard.
\<close>

definition import_csv_to_postgres :: script where
  "import_csv_to_postgres =
     \<lparr>COLUMN_DEFINITIONS = [
      (''ABOUT_US'', TEXT), (''CATEGORY_CRUNCHBASE'', TEXT), (''CATEGORY_G2'', TEXT),
      (''COMPANY_ENTITY_TYPE'', TEXT), (''COMPANY_LEGAL_TYPE'', TEXT), (''COMPANY_NAME'', TEXT),
      (''COMPANY_NAME_LANGUAGE'', TEXT), (''EMPLOYEE_COUNT_MAX'', INTEGER),
      (''EMPLOYEE_COUNT_MIN'', INTEGER), (''EMPLOYEE_COUNT_RANGE'', TEXT),
      (''EMPLOYEE_PROFILES_ON_LINKEDIN'', INTEGER), (''FOUNDED'', INTEGER),
      (''HEADQUARTERS_CITY'', TEXT), (''HEADQUARTERS_COUNTRY_CODE'', TEXT),
      (''HEADQUARTERS_COUNTRY_NAME'', TEXT), (''HEADQUARTERS_COUNTRY_REGION'', TEXT),
      (''HEADQUARTERS_CONTINENT'', TEXT), (''HEADQUARTERS_POSTCODE'', TEXT),
      (''HEADQUARTERS_STATE_CODE'', TEXT), (''HEADQUARTERS_STATE_NAME'', TEXT),
      (''HEADQUARTERS_STREET'', TEXT), (''INDUSTRY_LINKEDIN'', TEXT),
      (''INDUSTRY_SIC_CODE'', TEXT), (''INDUSTRY_SIC_DESCRIPTION'', TEXT),
      (''INDUSTRY_NAICS_CODE'', TEXT), (''INDUSTRY_NAICS_DESCRIPTION'', TEXT),
      (''INDUSTRY_NAICS_2022_CODE'', TEXT), (''INDUSTRY_NAICS_2022_DESCRIPTION'', TEXT),
      (''PREDICTED_INDUSTRY_NAICS_2022_CODE'', TEXT),
      (''PREDICTED_INDUSTRY_NAICS_2022_DESCRIPTION'', TEXT),
      (''INDUSTRY_UK_STANDARD_2007_CODE'', TEXT),
      (''INDUSTRY_UK_STANDARD_2007_DESCRIPTION'', TEXT), (''IS_LINKEDIN_URL_CLAIMED'', BOOLEAN),
      (''LINKEDIN_FOLLOWERS'', INTEGER), (''LINKEDIN_URL'', TEXT),
      (''LINKEDIN_URL_ID'', NUMERIC), (''LOCATION_CITY'', TEXT), (''LOCATION_COUNT'', INTEGER),
      (''LOCATION_COUNTRY_CODE'', TEXT), (''LOCATION_COUNTRY_NAME'', TEXT),
      (''LOCATION_COUNTRY_REGION'', TEXT), (''LOCATION_CONTINENT'', TEXT),
      (''LOCATION_IS_PRIMARY'', BOOLEAN), (''LOCATION_POSTCODE'', TEXT),
      (''LOCATION_STATE_CODE'', TEXT), (''LOCATION_STATE_NAME'', TEXT),
      (''LOCATION_STREET'', TEXT), (''PHONE'', TEXT), (''RBID'', TEXT),
      (''REVENUE_MAX'', NUMERIC), (''REVENUE_MIN'', NUMERIC), (''REVENUE_RANGE'', TEXT),
      (''SPECIALTIES'', TEXT), (''UPDATED_AT'', DATE), (''DOMAIN'', TEXT),
      (''DOMAIN_TLD'', TEXT), (''WEBSITE'', TEXT), (''IS_WEBSITE_WORKING'', BOOLEAN),
      (''IS_WEBSITE_FOR_SALE'', BOOLEAN)],
      numeric_branch = True, drops_table = True, checks_imported = False\<rparr>"

text \<open>
  \<^verbatim>\<open>import_per_to_postgres.py\<close>: the \<^verbatim>\<open>DROP TABLE\<close> line is commented out, and every file is
  first tested with \<^verbatim>\<open>is_csv_file_imported\<close>.
\<close>

definition import_per_to_postgres :: script where
  "import_per_to_postgres =
     \<lparr>COLUMN_DEFINITIONS = [
      (''LINKEDIN_URL'', TEXT), (''ABOUT_ME'', TEXT), (''CELLPHONE'', TEXT), (''CITY'', TEXT),
      (''COUNTRY_CODE'', TEXT), (''COUNTRY_NAME'', TEXT), (''COUNTRY_REGION'', TEXT),
      (''CONTINENT'', TEXT), (''DIRECT_PHONE'', TEXT), (''EDUCATION'', TEXT),
      (''FIRST_NAME'', TEXT), (''FULL_NAME'', TEXT), (''INTERESTS'', TEXT),
      (''JOB_COUNT'', INTEGER), (''JOB_DESCRIPTION'', TEXT), (''JOB_END_DATE'', TEXT),
      (''JOB_IS_CURRENT'', BOOLEAN), (''JOB_LEVEL'', TEXT), (''JOB_LOCATION_CITY'', TEXT),
      (''JOB_LOCATION_COUNTRY'', TEXT), (''JOB_LOCATION_COUNTRY_CODE'', TEXT),
      (''JOB_LOCATION_COUNTRY_REGION'', TEXT), (''JOB_LOCATION_CONTINENT'', TEXT),
      (''JOB_LOCATION_STATE'', TEXT), (''JOB_LOCATION_STATE_CODE'', TEXT),
      (''JOB_START_DATE'', TEXT), (''JOB_ORDER_IN_PROFILE'', INTEGER),
      (''JOB_ORG_LINKEDIN_URL'', TEXT), (''JOB_TITLE'', TEXT), (''JOB_FUNCTION'', TEXT),
      (''LANGUAGES'', TEXT), (''LAST_NAME'', TEXT), (''LINKEDIN_CONNECTIONS_COUNT'', INTEGER),
      (''LINKEDIN_HEADLINE'', TEXT), (''LINKEDIN_INDUSTRY'', TEXT), (''MIDDLE_NAME'', TEXT),
      (''NICKNAME_NAME'', TEXT), (''RBID'', TEXT), (''RBID_ORG'', TEXT), (''RBID_PAO'', TEXT),
      (''SKILLS'', TEXT), (''CERTIFICATIONS'', TEXT), (''PATENTS'', TEXT),
      (''PUBLICATIONS'', TEXT), (''WEBSITES'', TEXT), (''STATE_CODE'', TEXT),
      (''STATE_NAME'', TEXT), (''SUFFIX_NAME'', TEXT), (''TITLE_NAME'', TEXT),
      (''EMAIL_DOMAIN'', TEXT), (''UPDATED_AT'', TIMESTAMP), (''RN'', INTEGER),
      (''EMAIL_STATUS'', TEXT), (''EMAIL_ADDRESS'', TEXT),
      (''EMAIL_LAST_VERIFIED_AT'', TIMESTAMP), (''PERSONA'', TEXT)],
      numeric_branch = False, drops_table = False, checks_imported = True\<rparr>"

section \<open>Definitions that follow the specification's words\<close>

text \<open>
  The Boolean table of the specification, read case-insensitively: \<open>same_letter c x\<close> says
  that \<open>c\<close> is the character \<open>x\<close> or, for a lower-case letter \<open>x\<close>, its capital.
\<close>

definition same_letter :: "char \<Rightarrow> char \<Rightarrow> bool" where
  "same_letter c x =
     (c = x \<or> (of_char c :: nat) + 32 = of_char x \<and> 97 \<le> (of_char x :: nat) \<and> (of_char x :: nat) \<le> 122)"

definition matches_ci :: "string \<Rightarrow> string \<Rightarrow> bool" where
  "matches_ci s w = list_all2 same_letter s w"

definition spec_boolean :: "string \<Rightarrow> bool option" where
  "spec_boolean s =
     (if matches_ci s ''true'' \<or> matches_ci s ''t'' \<or> matches_ci s ''1'' \<or> matches_ci s ''yes''
      then Some True
      else if matches_ci s ''false'' \<or> matches_ci s ''f'' \<or> matches_ci s ''0'' \<or> matches_ci s ''no''
      then Some False
      else None)"

text \<open>A digit or a lower-case letter: the characters of the eight words of the table.\<close>

definition plain :: "char \<Rightarrow> bool" where
  "plain x =
     ((48 \<le> (of_char x :: nat) \<and> (of_char x :: nat) \<le> 57) \<or>
      (97 \<le> (of_char x :: nat) \<and> (of_char x :: nat) \<le> 122))"

text \<open>
  The batches of the specification: \<open>chunks n xs\<close> cuts \<open>xs\<close> into pieces of \<open>n\<close> elements, the
  last one shorter when \<open>n\<close> does not divide the length.
\<close>

function chunks :: "nat \<Rightarrow> 'a list \<Rightarrow> 'a list list" where
  "chunks n xs = (if n = 0 \<or> xs = [] then [] else take n xs # chunks n (drop n xs))"
  by pat_completeness auto
termination
  by (relation "measure (\<lambda>(n, xs). length xs)") auto

declare chunks.simps [simp del]

text \<open>The rows of a file that \<^verbatim>\<open>process_row\<close> accepts, processed, in file order.\<close>

fun accepted :: "script \<Rightarrow> raw_record list \<Rightarrow> row list" where
  "accepted sc [] = []"
| "accepted sc (r # rows) =
     (case process_row sc r of
        Inl e \<Rightarrow> accepted sc rows
      | Inr processed_row \<Rightarrow> processed_row # accepted sc rows)"

text \<open>The sink after the bulk inserts \<open>cs\<close>, all completed.\<close>

definition flushed :: "db \<Rightarrow> row list list \<Rightarrow> db" where
  "flushed d cs =
     d\<lparr>ops := ops d + length cs, calls := calls d @ map (\<lambda>b. (b, True)) cs,
       session := Some (the (session d) @ concat cs)\<rparr>"

text \<open>The number of rows in the bulk inserts of a log that completed.\<close>

definition completed_rows :: "(row list \<times> bool) list \<Rightarrow> nat" where
  "completed_rows cs = sum_list (map (\<lambda>c. length (fst c)) (filter snd cs))"

text \<open>
  \<open>retried cs\<close>: in the log \<open>cs\<close>, every bulk insert that raised is followed, if by any, by
  one whose batch starts with the same rows.
\<close>

fun retried :: "(row list \<times> bool) list \<Rightarrow> bool" where
  "retried (a # b # cs) = ((snd a \<or> prefix (fst a) (fst b)) \<and> retried (b # cs))"
| "retried cs = True"

text \<open>
  \<open>kept d d'\<close>: nothing the open transaction held in \<open>d\<close> was rolled back on the way to
  \<open>d'\<close>; the content of the session in \<open>d'\<close> starts with the content in \<open>d\<close>.
\<close>

definition kept :: "db \<Rightarrow> db \<Rightarrow> bool" where
  "kept d d' =
     (case session d of
        None \<Rightarrow> session d' = None
      | Some xs \<Rightarrow> (case session d' of None \<Rightarrow> False | Some ys \<Rightarrow> prefix xs ys))"

section \<open>Sinks used in the examples\<close>

text \<open>A sink where no statement raises, holding an empty table and holding no table.\<close>

definition reliable :: "nat \<Rightarrow> bool" where
  "reliable n = False"

definition empty_table :: db where
  "empty_table = \<lparr>durable = Some [], session = Some [], calls = [], ops = 0, faulty = reliable\<rparr>"

text \<open>A sink with an empty table where the first statement raises and no other does.\<close>

definition first_fails :: db where
  "first_fails = \<lparr>durable = Some [], session = Some [], calls = [], ops = 0, faulty = (\<lambda>n. n = 0)\<rparr>"

definition no_table :: db where
  "no_table = \<lparr>durable = None, session = None, calls = [], ops = 0, faulty = reliable\<rparr>"

section \<open>The Value Coercer: NULL sentinels\<close>

lemma clean_value_cases:
  "clean_value v = (if v = Some [CHR 0x5C, CHR ''N''] \<or> v = Some [] then None else v)"
  by (simp add: clean_value_def raw_backslash_N_def escaped_backslash_N_def)

lemma convert_None: "convert sc t None = Inr PyNone"
  by (simp add: convert_def parse_boolean_def parse_integer_def parse_numeric_def of_opt_def)

text \<open>
  What holds of the sentinels: a missing field, the empty string and a backslash followed
  by \<^verbatim>\<open>N\<close> become \<^verbatim>\<open>None\<close> for every column type, before any parsing.
\<close>

lemma coerce_sentinels:
  "coerce sc t None = Inr PyNone"
  "coerce sc t (Some []) = Inr PyNone"
  "coerce sc t (Some [CHR 0x5C, CHR ''N'']) = Inr PyNone"
  by (simp_all add: coerce_def clean_value_cases convert_None)

text \<open>
  C1. The claim: for every declared type, the empty string, a backslash followed by
  \<^verbatim>\<open>N\<close>, and two backslashes followed by \<^verbatim>\<open>N\<close> coerce to NULL. The tuple of
  \<^verbatim>\<open>clean_value\<close> holds the two-character sentinel twice and the three-character one not
  at all: a \<^verbatim>\<open>TEXT\<close>, \<^verbatim>\<open>DATE\<close> or \<^verbatim>\<open>TIMESTAMP\<close> field of two backslashes and \<^verbatim>\<open>N\<close> is passed on
  as that string.
\<close>

theorem coerce_two_backslashes_N:
  "raw_backslash_N = escaped_backslash_N \<and>
   coerce sc TEXT (Some [CHR 0x5C, CHR 0x5C, CHR ''N'']) = Inr (PyStr [CHR 0x5C, CHR 0x5C, CHR ''N'']) \<and>
   coerce sc DATE (Some [CHR 0x5C, CHR 0x5C, CHR ''N'']) = Inr (PyStr [CHR 0x5C, CHR 0x5C, CHR ''N'']) \<and>
   coerce sc TIMESTAMP (Some [CHR 0x5C, CHR 0x5C, CHR ''N'']) = Inr (PyStr [CHR 0x5C, CHR 0x5C, CHR ''N''])"
  by (simp add: coerce_def convert_def clean_value_cases of_opt_def
      raw_backslash_N_def escaped_backslash_N_def)

section \<open>The Value Coercer: Integer\<close>

lemma py_float_inf: "py_float ''inf'' = Inr PosInf"
  by (simp add: py_float_def strip_def is_space_def lower_def lower_char_def)

text \<open>Evaluation of the float model on literals.\<close>

lemma bit_length_numeral [simp]:
  "bit_length 0 = 0" "bit_length 1 = 1" "bit_length (Suc 0) = 1"
  "bit_length (numeral (Num.Bit0 k)) = Suc (bit_length (numeral k))"
  "bit_length (numeral (Num.Bit1 k)) = Suc (bit_length (numeral k))"
  by (subst bit_length.simps, simp)+

lemma floor_rat_numeral [simp]:
  "\<lfloor>(numeral a / numeral b :: rat)\<rfloor> = numeral a div numeral b"
  "\<lceil>- (numeral a / numeral b :: rat)\<rceil> = - (numeral a div numeral b)"
proof -
  have "(numeral a / numeral b :: rat) = of_int (numeral a) / of_int (numeral b)" by simp
  then show 1: "\<lfloor>(numeral a / numeral b :: rat)\<rfloor> = numeral a div numeral b"
    by (simp only: floor_divide_of_int_eq)
  show "\<lceil>- (numeral a / numeral b :: rat)\<rceil> = - (numeral a div numeral b)"
    using 1 by (simp add: ceiling_def)
qed

lemmas float_eval = py_float_def strip_def is_space_def lower_def lower_char_def floatnumber_def
  number_def exponent_def digitpart_def is_digit_def digit_val_def round_double_def scaled_def
  round_half_even_def pow2_def Let_def py_int_def char_of_eq_iff take_bit_eq_mod

text \<open>A string that parses as a finite float gives its truncation towards zero.\<close>

lemma parse_integer_value:
  "parse_integer (Some s) = Inr (Some i) \<longleftrightarrow>
     s \<noteq> [] \<and> (\<exists>q. py_float s = Inr (Finite q) \<and> i = (if 0 \<le> q then \<lfloor>q\<rfloor> else \<lceil>q\<rceil>))"
  by (auto simp: parse_integer_def py_int_def split: sum.splits pyfloat.splits)

lemma parse_integer_examples:
  "parse_integer (Some ''42.0'') = Inr (Some 42)"
  "parse_integer (Some ''7.0'') = Inr (Some 7)"
  "parse_integer (Some ''-7.9'') = Inr (Some (- 7))"
  "parse_integer (Some '' 1_0e1 '') = Inr (Some 100)"
  "parse_integer (Some ''abc'') = Inr None"
  "parse_integer (Some ''nan'') = Inr None"
  "parse_integer (Some ''-Infinity'') = Inl OverflowError"
  by (simp_all add: parse_integer_def float_eval)

text \<open>
  The only exception that leaves \<^verbatim>\<open>parse_integer\<close> is the \<^verbatim>\<open>OverflowError\<close> of \<^verbatim>\<open>int\<close> on an
  infinity.
\<close>

lemma py_float_raises: "py_float s = Inl e \<Longrightarrow> e = ValueError"
  by (auto simp: py_float_def Let_def split: if_splits option.splits)

lemma parse_integer_raises:
  "parse_integer v = Inl e \<Longrightarrow>
     e = OverflowError \<and> (\<exists>s. v = Some s \<and> (py_float s = Inr PosInf \<or> py_float s = Inr NegInf))"
  by (auto simp: parse_integer_def py_int_def dest: py_float_raises
      split: option.splits if_splits sum.splits pyfloat.splits)

text \<open>
  C2. The claim: coercion to Integer never raises; a string that parses as a float gives
  its truncation, any other string gives NULL. \<^verbatim>\<open>float('inf')\<close> parses, \<^verbatim>\<open>int\<close> of it raises
  \<^verbatim>\<open>OverflowError\<close>, and \<^verbatim>\<open>parse_integer\<close> catches \<^verbatim>\<open>(ValueError, TypeError)\<close> only.
\<close>

theorem parse_integer_inf_raises:
  "parse_integer (Some ''inf'') = Inl OverflowError \<and>
   coerce sc INTEGER (Some ''inf'') = Inl OverflowError"
  by (simp add: coerce_def convert_def clean_value_cases parse_integer_def py_float_inf py_int_def)

section \<open>The Value Coercer: Boolean\<close>

lemma of_char_lt_256: "(of_char c :: nat) < 256"
  by (cases c) (simp add: of_char_def)

lemma lower_char_eq:
  assumes "plain x"
  shows "lower_char c = x \<longleftrightarrow> same_letter c x"
proof -
  have c: "(of_char c :: nat) < 256" by (rule of_char_lt_256)
  have eq: "c = x \<longleftrightarrow> (of_char c :: nat) = of_char x" by simp
  show ?thesis
    using assms c unfolding lower_char_def same_letter_def plain_def Let_def eq
    by (auto simp: char_of_eq_iff take_bit_eq_mod)
qed

lemma lower_eq_matches_ci: "list_all plain w \<Longrightarrow> lower s = w \<longleftrightarrow> matches_ci s w"
proof (induction s arbitrary: w)
  case Nil
  then show ?case by (auto simp: lower_def matches_ci_def)
next
  case (Cons c s)
  show ?case
  proof (cases w)
    case Nil
    then show ?thesis by (simp add: lower_def matches_ci_def)
  next
    case (Cons x w')
    with Cons.prems have px: "plain x" and pw: "list_all plain w'" by simp_all
    from px have "lower_char c = x \<longleftrightarrow> same_letter c x" by (rule lower_char_eq)
    moreover from Cons.IH [OF pw] have "lower s = w' \<longleftrightarrow> matches_ci s w'" .
    ultimately show ?thesis using Cons by (simp add: lower_def matches_ci_def)
  qed
qed

lemma parse_boolean_spec: "parse_boolean (Some s) = spec_boolean s"
proof -
  have w: "list_all plain ''true''" "list_all plain ''t''" "list_all plain ''1''"
    "list_all plain ''yes''" "list_all plain ''false''" "list_all plain ''f''"
    "list_all plain ''0''" "list_all plain ''no''"
    by (simp_all add: plain_def)
  show ?thesis
  proof (cases "s = []")
    case True
    then show ?thesis by (simp add: parse_boolean_def spec_boolean_def matches_ci_def)
  next
    case False
    then show ?thesis
      unfolding parse_boolean_def spec_boolean_def
      by (simp add: w [THEN lower_eq_matches_ci])
  qed
qed

lemma spec_boolean_backslash_N: "spec_boolean [CHR 0x5C, CHR ''N''] = None"
  by (simp add: spec_boolean_def matches_ci_def same_letter_def)

text \<open>
  C8. Coercion to Boolean never raises and is the table of the specification read
  case-insensitively: true for \<^verbatim>\<open>true\<close>, \<^verbatim>\<open>t\<close>, \<^verbatim>\<open>1\<close>, \<^verbatim>\<open>yes\<close>, false for \<^verbatim>\<open>false\<close>, \<^verbatim>\<open>f\<close>, \<^verbatim>\<open>0\<close>, \<^verbatim>\<open>no\<close>,
  NULL for every other input.
\<close>

theorem coerce_boolean_total:
  "coerce sc BOOLEAN None = Inr PyNone \<and>
   coerce sc BOOLEAN (Some s) = Inr (case spec_boolean s of None \<Rightarrow> PyNone | Some b \<Rightarrow> PyBool b)"
proof -
  have "coerce sc BOOLEAN (Some s) = Inr (case spec_boolean s of None \<Rightarrow> PyNone | Some b \<Rightarrow> PyBool b)"
  proof (cases "s = [CHR 0x5C, CHR ''N''] \<or> s = []")
    case True
    then show ?thesis
      using spec_boolean_backslash_N
      by (auto simp: coerce_def convert_def clean_value_cases parse_boolean_def of_opt_def
          spec_boolean_def matches_ci_def)
  next
    case False
    then have "clean_value (Some s) = Some s" by (simp add: clean_value_cases)
    then show ?thesis
      by (simp add: coerce_def convert_def parse_boolean_spec of_opt_def)
  qed
  then show ?thesis by (simp add: coerce_sentinels)
qed

theorem coerce_boolean_total_witness:
  "coerce import_csv_to_postgres BOOLEAN (Some ''YeS'') = Inr (PyBool True) \<and>
   coerce import_csv_to_postgres BOOLEAN (Some ''F'') = Inr (PyBool False) \<and>
   coerce import_csv_to_postgres BOOLEAN (Some ''maybe'') = Inr PyNone \<and>
   coerce import_csv_to_postgres BOOLEAN (Some '' true'') = Inr PyNone"
  using coerce_boolean_total [of import_csv_to_postgres "''YeS''"]
    coerce_boolean_total [of import_csv_to_postgres "''F''"]
    coerce_boolean_total [of import_csv_to_postgres "''maybe''"]
    coerce_boolean_total [of import_csv_to_postgres "'' true''"]
  by (simp add: spec_boolean_def matches_ci_def same_letter_def)

section \<open>The Source Enumerator: folder listing\<close>

lemma set_glob:
  "set (glob p entries sfx) = {p @ ''/'' @ name | name. name \<in> set entries \<and> endswith name sfx}"
  by (auto simp: glob_def)

text \<open>
  C9. \<^verbatim>\<open>get_csv_files\<close> raises \<^verbatim>\<open>FileNotFoundError\<close> exactly when the folder does not exist;
  otherwise it returns the \<^verbatim>\<open>*.csv\<close> entries together with the \<^verbatim>\<open>*.csv.gz\<close> entries, sorted
  lexicographically by path.
\<close>

theorem get_csv_files_sorted_union:
  "(get_csv_files dirs p = Inl FileNotFoundError \<longleftrightarrow> dirs p = None) \<and>
   (\<forall>entries. dirs p = Some entries \<longrightarrow>
      (\<exists>paths. get_csv_files dirs p = Inr paths \<and> sorted paths \<and>
         mset paths = mset (glob p entries ''.csv'') + mset (glob p entries ''.csv.gz'')))"
  by (auto simp: get_csv_files_def split: option.splits)

text \<open>The order of characters and strings, for evaluation.\<close>

lemmas str_ord = less_char_def less_eq_char_def

theorem get_csv_files_sorted_union_witness:
  "get_csv_files [''data'' \<mapsto> [''b.csv'', ''notes.txt'', ''a.csv.gz'', ''c.csv'']] ''data'' =
     Inr [''data/a.csv.gz'', ''data/b.csv'', ''data/c.csv''] \<and>
   get_csv_files [''data'' \<mapsto> [''b.csv'', ''notes.txt'', ''a.csv.gz'', ''c.csv'']] ''other'' =
     Inl FileNotFoundError"
proof -
  let ?entries = "[''b.csv'', ''notes.txt'', ''a.csv.gz'', ''c.csv'']"
  let ?dirs = "[''data'' \<mapsto> ?entries]"
  have a: "?dirs ''other'' = None" by simp
  have b: "glob ''data'' ?entries ''.csv'' = [''data/b.csv'', ''data/c.csv'']"
    "glob ''data'' ?entries ''.csv.gz'' = [''data/a.csv.gz'']"
    by (simp_all add: glob_def endswith_def)
  from get_csv_files_sorted_union [of ?dirs "''other''"] a
  have 1: "get_csv_files ?dirs ''other'' = Inl FileNotFoundError" by simp
  from get_csv_files_sorted_union [of ?dirs "''data''"]
  obtain paths where p: "get_csv_files ?dirs ''data'' = Inr paths" "sorted paths"
    and m: "mset paths = mset (glob ''data'' ?entries ''.csv'') + mset (glob ''data'' ?entries ''.csv.gz'')"
    by auto
  from m have "mset paths = mset ([''data/b.csv'', ''data/c.csv''] @ [''data/a.csv.gz''])"
    unfolding b by simp
  with p(2) have "sort ([''data/b.csv'', ''data/c.csv''] @ [''data/a.csv.gz'']) = paths"
    by (intro properties_for_sort)
  then have "paths = [''data/a.csv.gz'', ''data/b.csv'', ''data/c.csv'']"
    by (simp add: str_ord)
  with p(1) 1 show ?thesis by simp
qed

section \<open>Rows of the examples\<close>

text \<open>A row whose only field is a plain \<^verbatim>\<open>TEXT\<close> column; every other column is absent and becomes \<^verbatim>\<open>None\<close>.\<close>

lemma process_columns_single:
  assumes "\<forall>(n, t) \<in> set cols. n = k \<longrightarrow> t = TEXT" and "x \<noteq> []" and "x \<noteq> [CHR 0x5C, CHR ''N'']"
    and "row = [k \<mapsto> Some x]"
  shows "process_columns sc cols row =
           Inr (map (\<lambda>(n, t). if n = k then PyStr x else PyNone) cols)"
  using assms(1)
proof (induction cols)
  case Nil
  then show ?case by simp
next
  case (Cons c cols)
  obtain n t where c: "c = (n, t)" by (cases c)
  from Cons.prems have rest: "\<forall>(n, t) \<in> set cols. n = k \<longrightarrow> t = TEXT" by simp
  have "coerce sc t (row_get row n) = Inr (if n = k then PyStr x else PyNone)"
  proof (cases "n = k")
    case True
    with Cons.prems c have "t = TEXT" by simp
    with True assms(2,3,4) show ?thesis
      by (simp add: row_get_def coerce_def convert_def clean_value_cases of_opt_def)
  next
    case False
    with assms(4) show ?thesis by (simp add: row_get_def coerce_sentinels)
  qed
  with Cons.IH [OF rest] c show ?case by simp
qed

lemma script_fields [simp]:
  "checks_imported import_csv_to_postgres = False" "drops_table import_csv_to_postgres = True"
  "checks_imported import_per_to_postgres = True" "drops_table import_per_to_postgres = False"
  by (simp_all add: import_csv_to_postgres_def import_per_to_postgres_def)

lemma rbid_is_text:
  "\<forall>(n, t) \<in> set (COLUMN_DEFINITIONS import_csv_to_postgres). n = ''RBID'' \<longrightarrow> t = TEXT"
  "\<forall>(n, t) \<in> set (COLUMN_DEFINITIONS import_per_to_postgres). n = ''RBID'' \<longrightarrow> t = TEXT"
  by (simp_all add: import_csv_to_postgres_def import_per_to_postgres_def)

lemma rbid_row:
  assumes "x \<noteq> []" and "x \<noteq> [CHR 0x5C, CHR ''N'']"
  shows "process_row import_csv_to_postgres [''RBID'' \<mapsto> Some x] =
           Inr (map (\<lambda>(n, t). if n = ''RBID'' then PyStr x else PyNone) (COLUMN_DEFINITIONS import_csv_to_postgres))"
    and "process_row import_per_to_postgres [''RBID'' \<mapsto> Some x] =
           Inr (map (\<lambda>(n, t). if n = ''RBID'' then PyStr x else PyNone) (COLUMN_DEFINITIONS import_per_to_postgres))"
  unfolding process_row_def
  by (rule process_columns_single [OF _ assms refl], rule rbid_is_text)+

lemmas sink_eval = import_multiple_files_def import_csv_data_def execute_batch_def commit_def
  empty_table_def reliable_def Let_def

lemma reliable_sinks [simp]:
  "faulty empty_table n = False" "session empty_table = Some []" "durable empty_table = Some []"
  "calls empty_table = []"
  "faulty no_table n = False" "session no_table = None" "durable no_table = None"
  by (simp_all add: empty_table_def no_table_def reliable_def)

section \<open>The Bulk Loader: batches\<close>

lemma flushed_Nil: "session d \<noteq> None \<Longrightarrow> flushed d [] = d"
  by (auto simp: flushed_def)

lemma flushed_Cons:
  "flushed (d\<lparr>ops := ops d + 1, calls := calls d @ [(c, True)], session := Some (the (session d) @ c)\<rparr>) cs
   = flushed d (c # cs)"
  by (simp add: flushed_def)

lemma flushed_fields [simp]:
  "faulty (flushed d cs) = faulty d" "durable (flushed d cs) = durable d"
  "session (flushed d cs) = Some (the (session d) @ concat cs)"
  "calls (flushed d cs) = calls d @ map (\<lambda>b. (b, True)) cs"
  "ops (flushed d cs) = ops d + length cs"
  by (simp_all add: flushed_def)

lemma execute_batch_ok:
  "\<not> faulty d (ops d) \<Longrightarrow> session d \<noteq> None \<Longrightarrow>
   execute_batch b d = (Inr (), d\<lparr>ops := ops d + 1, calls := calls d @ [(b, True)],
                                   session := Some (the (session d) @ b)\<rparr>)"
  by (simp add: execute_batch_def)

lemma import_rows_no_fault:
  assumes "\<forall>n. \<not> faulty d n" "session d \<noteq> None"
  shows "\<exists>cs batch'. import_rows sc bs rows (t, batch, d) = (t + length (concat cs), batch', flushed d cs) \<and>
           concat cs @ batch' = batch @ accepted sc rows \<and>
           (0 < bs \<and> int (length batch) < bs \<longrightarrow> (\<forall>c \<in> set cs. int (length c) = bs) \<and> int (length batch') < bs)"
  using assms
proof (induction rows arbitrary: t batch d)
  case Nil
  then show ?case
    by (intro exI [of _ "[]"] exI [of _ batch]) (simp add: flushed_Nil)
next
  case (Cons r rows)
  show ?case
  proof (cases "process_row sc r")
    case (Inl e)
    with Cons.IH [OF Cons.prems, of t batch] show ?thesis by simp
  next
    case (Inr pr)
    show ?thesis
    proof (cases "bs \<le> int (length (batch @ [pr]))")
      case False
      from Cons.IH [OF Cons.prems, of t "batch @ [pr]"]
      obtain cs batch' where
        "import_rows sc bs rows (t, batch @ [pr], d) = (t + length (concat cs), batch', flushed d cs)"
        "concat cs @ batch' = (batch @ [pr]) @ accepted sc rows"
        "0 < bs \<and> int (length (batch @ [pr])) < bs \<longrightarrow> (\<forall>c \<in> set cs. int (length c) = bs) \<and> int (length batch') < bs"
        by blast
      with Inr False show ?thesis
        by (intro exI [of _ cs] exI [of _ batch']) auto
    next
      case True
      let ?b = "batch @ [pr]"
      let ?d1 = "d\<lparr>ops := ops d + 1, calls := calls d @ [(?b, True)], session := Some (the (session d) @ ?b)\<rparr>"
      have ex: "execute_batch ?b d = (Inr (), ?d1)"
        using Cons.prems by (intro execute_batch_ok) auto
      have p1: "\<forall>n. \<not> faulty ?d1 n" "session ?d1 \<noteq> None" using Cons.prems by simp_all
      from Cons.IH [OF p1, of "t + length ?b" "[]"]
      obtain cs batch' where
        r: "import_rows sc bs rows (t + length ?b, [], ?d1) = (t + length ?b + length (concat cs), batch', flushed ?d1 cs)"
        "concat cs @ batch' = [] @ accepted sc rows"
        "0 < bs \<and> int (length ([]::row list)) < bs \<longrightarrow> (\<forall>c \<in> set cs. int (length c) = bs) \<and> int (length batch') < bs"
        by blast
      have "import_rows sc bs (r # rows) (t, batch, d) = (t + length (concat (?b # cs)), batch', flushed d (?b # cs))"
        using Inr True ex r(1) by (simp add: flushed_Cons Let_def)
      moreover have "concat (?b # cs) @ batch' = batch @ accepted sc (r # rows)"
        using Inr r(2) by simp
      moreover have "0 < bs \<and> int (length batch) < bs \<longrightarrow> (\<forall>c \<in> set (?b # cs). int (length c) = bs) \<and> int (length batch') < bs"
        using r(3) True by auto
      ultimately show ?thesis by blast
    qed
  qed
qed

lemma chunks_Nil [simp]: "chunks n [] = []"
  by (simp add: chunks.simps)

lemma chunks_append_full:
  "0 < n \<Longrightarrow> length c = n \<Longrightarrow> chunks n (c @ xs) = c # chunks n xs"
  by (subst chunks.simps) auto

lemma chunks_short: "0 < n \<Longrightarrow> xs \<noteq> [] \<Longrightarrow> length xs < n \<Longrightarrow> chunks n xs = [xs]"
  by (subst chunks.simps) simp

lemma chunks_concat:
  "0 < n \<Longrightarrow> \<forall>c \<in> set cs. length c = n \<Longrightarrow> length b < n \<Longrightarrow>
   chunks n (concat cs @ b) = cs @ (if b = [] then [] else [b])"
  by (induction cs) (auto simp: chunks_append_full chunks_short)


lemma concat_chunks: "0 < n \<Longrightarrow> concat (chunks n xs) = xs"
proof (induction n xs rule: chunks.induct)
  case (1 n xs)
  then show ?case by (subst chunks.simps) auto
qed

lemma chunks_sizes:
  "0 < n \<Longrightarrow> c \<in> set (chunks n xs) \<Longrightarrow> 0 < length c \<and> length c \<le> n"
proof (induction n xs rule: chunks.induct)
  case (1 n xs)
  from "1.prems"(2) have "xs \<noteq> []" by (auto simp: chunks.simps)
  with "1.prems" have "c = take n xs \<or> c \<in> set (chunks n (drop n xs))"
    by (subst (asm) chunks.simps) auto
  with 1 \<open>xs \<noteq> []\<close> show ?case by auto
qed

lemma chunks_butlast_full:
  "0 < n \<Longrightarrow> c \<in> set (butlast (chunks n xs)) \<Longrightarrow> length c = n"
proof (induction n xs rule: chunks.induct)
  case (1 n xs)
  from "1.prems"(2) have ne: "xs \<noteq> []" by (auto simp: chunks.simps)
  have eq: "chunks n xs = take n xs # chunks n (drop n xs)"
    using ne "1.prems"(1) by (subst chunks.simps) simp
  show ?case
  proof (cases "chunks n (drop n xs) = []")
    case True
    with eq "1.prems" show ?thesis by simp
  next
    case False
    then have "drop n xs \<noteq> []" by auto
    then have "length (take n xs) = n" by simp
    with eq False "1.prems" "1.IH" ne show ?thesis by auto
  qed
qed

text \<open>
  C7. With a positive batch size, a file that can be read to its end and a sink that
  does not fail, \<^verbatim>\<open>import_csv_data\<close> sends the accepted rows in bulk inserts of exactly
  \<open>batch_size\<close> rows, each sent when the batch reaches that size and then cleared, and the
  remaining shorter batch at the end of the file; it returns the number of accepted rows.
  With batch size 2 and 5 rows the calls have sizes 2, 2, 1 and the result is 5.
\<close>

theorem import_csv_data_batches:
  assumes "0 < batch_size" and "fs path = Some (rows, None)"
    and "\<forall>n. \<not> faulty d n" and "session d \<noteq> None"
  shows "import_csv_data sc fs path batch_size d =
           (Inr (length (accepted sc rows)), flushed d (chunks (nat batch_size) (accepted sc rows)))"
proof -
  from import_rows_no_fault [OF assms(3,4), of sc batch_size rows 0 "[]"] assms(1)
  obtain cs b where
    r: "import_rows sc batch_size rows (0, [], d) = (length (concat cs), b, flushed d cs)"
    and c: "concat cs @ b = accepted sc rows"
    and f: "\<forall>c \<in> set cs. int (length c) = batch_size" and l: "int (length b) < batch_size"
    by auto
  from f have f': "\<forall>c \<in> set cs. length c = nat batch_size" by auto
  from l have l': "length b < nat batch_size" by auto
  have ch: "chunks (nat batch_size) (accepted sc rows) = cs @ (if b = [] then [] else [b])"
    using chunks_concat [OF _ f' l'] assms(1) c by simp
  have len: "length (accepted sc rows) = length (concat cs) + length b"
    using c [symmetric] by simp
  show ?thesis
  proof (cases "b = []")
    case True
    with r ch len show ?thesis by (simp add: import_csv_data_def assms(2))
  next
    case False
    have "execute_batch b (flushed d cs) = (Inr (), flushed d (cs @ [b]))"
      using assms(3,4) by (simp add: execute_batch_def flushed_def)
    with False r ch len show ?thesis by (simp add: import_csv_data_def assms(2))
  qed
qed

theorem import_csv_data_batches_witness:
  "fst (import_csv_data import_csv_to_postgres
         [''1.csv'' \<mapsto> ([[''RBID'' \<mapsto> Some ''a''], [''RBID'' \<mapsto> Some ''b''], [''RBID'' \<mapsto> Some ''c''],
                        [''RBID'' \<mapsto> Some ''d''], [''RBID'' \<mapsto> Some ''e'']], None)]
         ''1.csv'' 2 empty_table) = Inr 5 \<and>
   map (\<lambda>c. (length (fst c), snd c))
     (calls (snd (import_csv_data import_csv_to_postgres
         [''1.csv'' \<mapsto> ([[''RBID'' \<mapsto> Some ''a''], [''RBID'' \<mapsto> Some ''b''], [''RBID'' \<mapsto> Some ''c''],
                        [''RBID'' \<mapsto> Some ''d''], [''RBID'' \<mapsto> Some ''e'']], None)]
         ''1.csv'' 2 empty_table))) = [(2, True), (2, True), (1, True)]"
proof -
  let ?sc = import_csv_to_postgres
  let ?rows = "[[''RBID'' \<mapsto> Some ''a''], [''RBID'' \<mapsto> Some ''b''], [''RBID'' \<mapsto> Some ''c''],
                [''RBID'' \<mapsto> Some ''d''], [''RBID'' \<mapsto> Some ''e'']]"
  define p where "p = (\<lambda>x. map (\<lambda>(n, t). if n = ''RBID'' then PyStr x else PyNone) (COLUMN_DEFINITIONS ?sc))"
  have acc: "accepted ?sc ?rows = [p ''a'', p ''b'', p ''c'', p ''d'', p ''e'']"
    by (simp add: rbid_row p_def)
  have ch: "chunks 2 [p ''a'', p ''b'', p ''c'', p ''d'', p ''e''] =
      [[p ''a'', p ''b''], [p ''c'', p ''d''], [p ''e'']]"
    by (simp add: chunks.simps)
  have "import_csv_data ?sc [''1.csv'' \<mapsto> (?rows, None)] ''1.csv'' 2 empty_table =
      (Inr (length (accepted ?sc ?rows)), flushed empty_table (chunks (nat 2) (accepted ?sc ?rows)))"
    by (rule import_csv_data_batches) simp_all
  then show ?thesis
    unfolding acc by (simp add: ch)
qed

section \<open>The Bulk Loader: the row count\<close>

lemma completed_rows_append [simp]:
  "completed_rows (xs @ ys) = completed_rows xs + completed_rows ys"
  by (simp add: completed_rows_def)

lemma completed_rows_simps [simp]:
  "completed_rows [] = 0"
  "completed_rows ((b, True) # cs) = length b + completed_rows cs"
  "completed_rows ((b, False) # cs) = completed_rows cs"
  by (simp_all add: completed_rows_def)

lemma retried_Cons:
  "retried (a # cs) \<longleftrightarrow> retried cs \<and> (cs \<noteq> [] \<longrightarrow> snd a \<or> prefix (fst a) (fst (hd cs)))"
  by (cases cs) auto

lemma retried_snoc:
  "retried (cs @ [a]) \<longleftrightarrow> retried cs \<and> (cs \<noteq> [] \<longrightarrow> snd (last cs) \<or> prefix (fst (last cs)) (fst a))"
proof (induction cs rule: retried.induct)
  case (1 a b cs)
  then show ?case by auto
qed auto

lemma execute_batch_calls:
  "execute_batch b d = (res, d') \<Longrightarrow> calls d' = calls d @ [(b, res = Inr ())]"
  by (auto simp: execute_batch_def split: if_splits)

text \<open>The invariant of the loop of \<^verbatim>\<open>import_csv_data\<close>, for any behaviour of the sink.\<close>

lemma import_rows_log:
  "import_rows sc bs rows (t, batch, d) = (t', batch', d') \<Longrightarrow>
   \<exists>new. calls d' = calls d @ new \<and> t' = t + completed_rows new \<and> retried new \<and>
         (new = [] \<longrightarrow> prefix batch batch') \<and>
         (new \<noteq> [] \<longrightarrow> prefix batch (fst (hd new))) \<and>
         (new \<noteq> [] \<and> \<not> snd (last new) \<longrightarrow> prefix (fst (last new)) batch')"
proof (induction rows arbitrary: t batch d)
  case Nil
  then show ?case by simp
next
  case (Cons r rows)
  show ?case
  proof (cases "process_row sc r")
    case (Inl e)
    with Cons.prems have "import_rows sc bs rows (t, batch, d) = (t', batch', d')" by simp
    from Cons.IH [OF this] show ?thesis .
  next
    case (Inr pr)
    let ?b = "batch @ [pr]"
    show ?thesis
    proof (cases "bs \<le> int (length ?b)")
      case False
      with Inr Cons.prems have "import_rows sc bs rows (t, ?b, d) = (t', batch', d')" by simp
      from Cons.IH [OF this]
      obtain new where n: "calls d' = calls d @ new" "t' = t + completed_rows new" "retried new"
        "new = [] \<longrightarrow> prefix ?b batch'" "new \<noteq> [] \<longrightarrow> prefix ?b (fst (hd new))"
        "new \<noteq> [] \<and> \<not> snd (last new) \<longrightarrow> prefix (fst (last new)) batch'"
        by blast
      from n(4,5) have "new = [] \<longrightarrow> prefix batch batch'" "new \<noteq> [] \<longrightarrow> prefix batch (fst (hd new))"
        by (auto dest: append_prefixD)
      with n show ?thesis by blast
    next
      case True
      obtain res d1 where ex: "execute_batch ?b d = (res, d1)" by (cases "execute_batch ?b d")
      from execute_batch_calls [OF ex] have c1: "calls d1 = calls d @ [(?b, res = Inr ())]" .
      show ?thesis
      proof (cases res)
        case (Inl e)
        with Inr True ex Cons.prems have "import_rows sc bs rows (t, ?b, d1) = (t', batch', d')" by simp
        from Cons.IH [OF this]
        obtain new where n: "calls d' = calls d1 @ new" "t' = t + completed_rows new" "retried new"
          "new = [] \<longrightarrow> prefix ?b batch'" "new \<noteq> [] \<longrightarrow> prefix ?b (fst (hd new))"
          "new \<noteq> [] \<and> \<not> snd (last new) \<longrightarrow> prefix (fst (last new)) batch'"
          by blast
        let ?new = "(?b, False) # new"
        have "calls d' = calls d @ ?new" using n(1) c1 Inl by simp
        moreover have "t' = t + completed_rows ?new" using n(2) by simp
        moreover have "retried ?new" using n(3,5) by (simp add: retried_Cons)
        moreover have "prefix batch (fst (hd ?new))" by simp
        moreover have "\<not> snd (last ?new) \<longrightarrow> prefix (fst (last ?new)) batch'"
          using n(4,6) by auto
        ultimately show ?thesis by (intro exI [of _ ?new]) simp
      next
        case (Inr u)
        with \<open>process_row sc r = Inr pr\<close> True ex Cons.prems
        have "import_rows sc bs rows (t + length ?b, [], d1) = (t', batch', d')" by simp
        from Cons.IH [OF this]
        obtain new where n: "calls d' = calls d1 @ new" "t' = t + length ?b + completed_rows new" "retried new"
          "new \<noteq> [] \<and> \<not> snd (last new) \<longrightarrow> prefix (fst (last new)) batch'"
          by blast
        let ?new = "(?b, True) # new"
        have "calls d' = calls d @ ?new" using n(1) c1 Inr by simp
        moreover have "t' = t + completed_rows ?new" using n(2) by simp
        moreover have "retried ?new" using n(3) by (simp add: retried_Cons)
        moreover have "prefix batch (fst (hd ?new))" by simp
        moreover have "\<not> snd (last ?new) \<longrightarrow> prefix (fst (last ?new)) batch'"
          using n(4) by auto
        ultimately show ?thesis by (intro exI [of _ ?new]) simp
      qed
    qed
  qed
qed

text \<open>
  C10. Whatever the sink does: in the loop of \<^verbatim>\<open>import_csv_data\<close> the running count grows
  by exactly the sizes of the bulk inserts that completed, and the count the function
  returns is the sum of the sizes of the bulk inserts it made that completed. A bulk
  insert that raised leaves the count and the batch as they are, so the next bulk insert
  starts with the same rows (\<open>retried\<close>).
\<close>

theorem import_csv_data_count:
  "(import_rows sc bs rows (t, batch, d) = (t', batch', d1) \<longrightarrow>
      (\<exists>new. calls d1 = calls d @ new \<and> t' = t + completed_rows new \<and> retried new \<and>
         (new \<noteq> [] \<and> \<not> snd (last new) \<longrightarrow> prefix (fst (last new)) batch'))) \<and>
   (import_csv_data sc fs path bs d = (res, d2) \<longrightarrow>
      (\<exists>new. calls d2 = calls d @ new \<and> retried new \<and>
         (\<forall>n. res = Inr n \<longrightarrow> n = completed_rows new)))"
proof (intro conjI impI)
  assume "import_rows sc bs rows (t, batch, d) = (t', batch', d1)"
  from import_rows_log [OF this]
  show "\<exists>new. calls d1 = calls d @ new \<and> t' = t + completed_rows new \<and> retried new \<and>
         (new \<noteq> [] \<and> \<not> snd (last new) \<longrightarrow> prefix (fst (last new)) batch')"
    by blast
next
  assume a: "import_csv_data sc fs path bs d = (res, d2)"
  show "\<exists>new. calls d2 = calls d @ new \<and> retried new \<and> (\<forall>n. res = Inr n \<longrightarrow> n = completed_rows new)"
  proof (cases "fs path")
    case None
    with a show ?thesis by (intro exI [of _ "[]"]) (auto simp: import_csv_data_def)
  next
    case (Some f)
    obtain rs err where f: "f = (rs, err)" by (cases f)
    obtain t b d1 where l: "import_rows sc bs rs (0, [], d) = (t, b, d1)"
      by (cases "import_rows sc bs rs (0, [], d)")
    from import_rows_log [OF l]
    obtain new where n: "calls d1 = calls d @ new" "t = completed_rows new" "retried new"
      "new \<noteq> [] \<and> \<not> snd (last new) \<longrightarrow> prefix (fst (last new)) b"
      by auto
    show ?thesis
    proof (cases "err = None \<and> b \<noteq> []")
      case False
      with a Some f l have "d2 = d1" "\<forall>n. res = Inr n \<longrightarrow> n = t"
        by (auto simp: import_csv_data_def split: option.splits)
      with n show ?thesis by blast
    next
      case True
      obtain r d3 where ex: "execute_batch b d1 = (r, d3)" by (cases "execute_batch b d1")
      from execute_batch_calls [OF ex] have c: "calls d3 = calls d1 @ [(b, r = Inr ())]" .
      from a Some f l True ex have d2: "d2 = d3" and res: "\<forall>n. res = Inr n \<longrightarrow> r = Inr () \<and> n = t + length b"
        by (auto simp: import_csv_data_def split: sum.splits)
      let ?new = "new @ [(b, r = Inr ())]"
      have "calls d2 = calls d @ ?new" using c n(1) d2 by simp
      moreover have "retried ?new" using n(3,4) by (auto simp: retried_snoc)
      moreover have "\<forall>n. res = Inr n \<longrightarrow> n = completed_rows ?new" using res n(2) by auto
      ultimately show ?thesis by blast
    qed
  qed
qed


theorem import_csv_data_count_witness:
  "fst (import_csv_data import_csv_to_postgres
         [''1.csv'' \<mapsto> ([[''RBID'' \<mapsto> Some ''a''], [''RBID'' \<mapsto> Some ''b''], [''RBID'' \<mapsto> Some ''c'']], None)]
         ''1.csv'' 2 first_fails) = Inr 3 \<and>
   map (\<lambda>c. (length (fst c), snd c))
     (calls (snd (import_csv_data import_csv_to_postgres
         [''1.csv'' \<mapsto> ([[''RBID'' \<mapsto> Some ''a''], [''RBID'' \<mapsto> Some ''b''], [''RBID'' \<mapsto> Some ''c'']], None)]
         ''1.csv'' 2 first_fails))) = [(2, False), (3, True)] \<and>
   retried (calls (snd (import_csv_data import_csv_to_postgres
         [''1.csv'' \<mapsto> ([[''RBID'' \<mapsto> Some ''a''], [''RBID'' \<mapsto> Some ''b''], [''RBID'' \<mapsto> Some ''c'']], None)]
         ''1.csv'' 2 first_fails)))"
proof -
  let ?sc = import_csv_to_postgres
  let ?rows = "[[''RBID'' \<mapsto> Some ''a''], [''RBID'' \<mapsto> Some ''b''], [''RBID'' \<mapsto> Some ''c'']]"
  let ?fs = "[''1.csv'' \<mapsto> (?rows, None)]"
  obtain res d' where r: "import_csv_data ?sc ?fs ''1.csv'' 2 first_fails = (res, d')"
    by (cases "import_csv_data ?sc ?fs ''1.csv'' 2 first_fails")
  from r have res: "res = Inr 3"
    and c: "map (\<lambda>c. (length (fst c), snd c)) (calls d') = [(2, False), (3, True)]"
    by (auto simp: import_csv_data_def rbid_row execute_batch_def Let_def first_fails_def)
  from import_csv_data_count [of ?sc 2 "[]" 0 "[]" first_fails 0 "[]" first_fails ?fs "''1.csv''" res d'] r
  obtain new where "calls d' = calls first_fails @ new" "retried new"
    by auto
  then have "retried (calls d')" by (simp add: first_fails_def)
  with r res c show ?thesis by simp
qed

section \<open>The Bulk Loader: the commit boundary\<close>

lemma kept_refl [simp]: "kept d d"
  by (simp add: kept_def split: option.splits)

lemma kept_trans: "kept d d' \<Longrightarrow> kept d' d'' \<Longrightarrow> kept d d''"
  by (auto simp: kept_def split: option.splits)

lemma kept_session_eq: "session d' = session d \<Longrightarrow> kept d d'"
  by (simp add: kept_def split: option.splits)

lemma execute_batch_frame:
  "execute_batch b d = (res, d') \<Longrightarrow> durable d' = durable d \<and> faulty d' = faulty d \<and> kept d d'"
  by (auto simp: execute_batch_def kept_def split: if_splits option.splits)

lemma import_rows_frame:
  "import_rows sc bs rows (t, batch, d) = (t', batch', d') \<Longrightarrow>
   durable d' = durable d \<and> faulty d' = faulty d \<and> kept d d'"
proof (induction rows arbitrary: t batch d)
  case Nil
  then show ?case by simp
next
  case (Cons r rows)
  show ?case
  proof (cases "process_row sc r")
    case (Inl e)
    with Cons show ?thesis by simp
  next
    case (Inr pr)
    show ?thesis
    proof (cases "bs \<le> int (length (batch @ [pr]))")
      case False
      with Inr Cons show ?thesis by simp
    next
      case True
      obtain res d1 where ex: "execute_batch (batch @ [pr]) d = (res, d1)"
        by (cases "execute_batch (batch @ [pr]) d")
      from execute_batch_frame [OF ex]
      have f: "durable d1 = durable d" "faulty d1 = faulty d" "kept d d1" by simp_all
      from Cons.prems Inr True ex
      have "\<exists>t1 b1. import_rows sc bs rows (t1, b1, d1) = (t', batch', d')"
        by (cases res) auto
      then obtain t1 b1 where "import_rows sc bs rows (t1, b1, d1) = (t', batch', d')" by blast
      from Cons.IH [OF this] f show ?thesis by (auto intro: kept_trans)
    qed
  qed
qed

text \<open>\<^verbatim>\<open>import_csv_data\<close> never commits and never rolls back.\<close>

lemma import_csv_data_frame:
  assumes "import_csv_data sc fs path bs d = (res, d')"
  shows "durable d' = durable d \<and> faulty d' = faulty d \<and> kept d d'"
proof (cases "fs path")
  case None
  with assms show ?thesis by (auto simp: import_csv_data_def)
next
  case (Some f)
  obtain rs err where f: "f = (rs, err)" by (cases f)
  obtain t b d1 where l: "import_rows sc bs rs (0, [], d) = (t, b, d1)"
    by (cases "import_rows sc bs rs (0, [], d)")
  from import_rows_frame [OF l] have f1: "durable d1 = durable d" "faulty d1 = faulty d" "kept d d1"
    by simp_all
  show ?thesis
  proof (cases "err = None \<and> b \<noteq> []")
    case False
    with assms Some f l have "d' = d1" by (auto simp: import_csv_data_def split: option.splits)
    with f1 show ?thesis by simp
  next
    case True
    obtain r d2 where ex: "execute_batch b d1 = (r, d2)" by (cases "execute_batch b d1")
    with assms Some f l True have "d' = d2" by (auto simp: import_csv_data_def split: sum.splits)
    with execute_batch_frame [OF ex] f1 show ?thesis by (auto intro: kept_trans)
  qed
qed

lemma is_csv_file_imported_frame:
  "is_csv_file_imported sc fs path d = (b, d') \<Longrightarrow>
   durable d' = durable d \<and> faulty d' = faulty d \<and> session d' = session d \<and> calls d' = calls d"
  by (auto simp: is_csv_file_imported_def select_one_def Let_def
      split: option.splits list.splits sum.splits if_splits prod.splits)

lemma commit_frame:
  "commit d = (res, d') \<Longrightarrow>
   faulty d' = faulty d \<and> session d' = session d \<and> calls d' = calls d \<and>
   (case res of Inl e \<Rightarrow> durable d' = durable d | Inr u \<Rightarrow> durable d' = session d')"
  by (auto simp: commit_def split: if_splits)

text \<open>One file of the loop of \<^verbatim>\<open>import_multiple_files\<close>.\<close>

lemma import_files_step:
  "\<exists>t1 out d1. import_files sc fs bs (f # files) (t, seen, d) = import_files sc fs bs files (t1, seen @ [out], d1) \<and>
     faulty d1 = faulty d \<and> kept d d1 \<and>
     (case out of Imported n \<Rightarrow> durable d1 = session d1 | _ \<Rightarrow> durable d1 = durable d)"
proof -
  obtain b d0 where g: "(if checks_imported sc then is_csv_file_imported sc fs f d else (False, d)) = (b, d0)"
    by (cases "if checks_imported sc then is_csv_file_imported sc fs f d else (False, d)")
  then have g0: "durable d0 = durable d" "faulty d0 = faulty d" "session d0 = session d"
    using is_csv_file_imported_frame [of sc fs f d b d0] by (auto split: if_splits)
  then have k0: "kept d d0" by (simp add: kept_session_eq)
  show ?thesis
  proof (cases b)
    case True
    with g have "import_files sc fs bs (f # files) (t, seen, d) = import_files sc fs bs files (t, seen @ [Skipped], d0)"
      by simp
    with g0 k0 show ?thesis by (intro exI [of _ t] exI [of _ Skipped] exI [of _ d0]) simp
  next
    case False
    obtain res d2 where i: "import_csv_data sc fs f bs d0 = (res, d2)"
      by (cases "import_csv_data sc fs f bs d0")
    from import_csv_data_frame [OF i] g0 k0
    have f2: "durable d2 = durable d" "faulty d2 = faulty d" "kept d d2"
      by (auto intro: kept_trans)
    show ?thesis
    proof (cases res)
      case (Inl e)
      with g False i have "import_files sc fs bs (f # files) (t, seen, d) = import_files sc fs bs files (t, seen @ [Failed e], d2)"
        by simp
      with f2 show ?thesis by (intro exI [of _ t] exI [of _ "Failed e"] exI [of _ d2]) simp
    next
      case (Inr n)
      obtain r d3 where c: "commit d2 = (r, d3)" by (cases "commit d2")
      from commit_frame [OF c] have c3: "faulty d3 = faulty d2" "session d3 = session d2"
        "case r of Inl e \<Rightarrow> durable d3 = durable d2 | Inr u \<Rightarrow> durable d3 = session d3"
        by simp_all
      from c3(2) have "kept d2 d3" by (rule kept_session_eq)
      with f2(3) have "kept d d3" by (rule kept_trans)
      with c3 f2 have f3: "faulty d3 = faulty d" "kept d d3"
        "case r of Inl e \<Rightarrow> durable d3 = durable d | Inr u \<Rightarrow> durable d3 = session d3"
        by (simp_all split: sum.splits)
      show ?thesis
      proof (cases r)
        case (Inl e)
        with g False i Inr c have "import_files sc fs bs (f # files) (t, seen, d) = import_files sc fs bs files (t + n, seen @ [Failed e], d3)"
          by simp
        with f3 Inl show ?thesis by (intro exI [of _ "t + n"] exI [of _ "Failed e"] exI [of _ d3]) simp
      next
        case (Inr u)
        with g False i \<open>res = Inr n\<close> c have "import_files sc fs bs (f # files) (t, seen, d) = import_files sc fs bs files (t + n, seen @ [Imported n], d3)"
          by simp
        with f3 Inr show ?thesis by (intro exI [of _ "t + n"] exI [of _ "Imported n"] exI [of _ d3]) simp
      qed
    qed
  qed
qed




section \<open>The Duplicate Guard\<close>

lemma process_columns_length: "process_columns sc cols r = Inr pr \<Longrightarrow> length pr = length cols"
proof (induction cols arbitrary: pr)
  case Nil
  then show ?case by simp
next
  case (Cons c cols)
  obtain n t where c: "c = (n, t)" by (cases c)
  from Cons.prems c obtain v vs where "process_columns sc cols r = Inr vs" "pr = v # vs"
    by (auto split: sum.splits)
  with Cons.IH show ?case by simp
qed

lemma process_row_length:
  "process_row sc r = Inr pr \<Longrightarrow> length pr = length (COLUMN_DEFINITIONS sc)"
  unfolding process_row_def by (rule process_columns_length)

lemma where_clause_pieces_nth:
  "length pr = length columns \<Longrightarrow> i < length columns \<Longrightarrow>
   where_clause_pieces columns pr ! i =
     (if pr ! i = PyNone then IsNull (columns ! i) else Equals (columns ! i) (pr ! i))"
  by (simp add: where_clause_pieces_def)


lemma holds_self:
  assumes "distinct columns"
  shows "\<forall>c \<in> set (where_clause_pieces columns pr). holds columns pr c"
proof
  fix c
  assume "c \<in> set (where_clause_pieces columns pr)"
  then obtain col v where m: "(col, v) \<in> set (zip columns pr)"
    and c: "c = (if v = PyNone then IsNull col else Equals col v)"
    by (auto simp: where_clause_pieces_def)
  have "distinct (map fst (zip columns pr))"
    using assms by (simp add: map_fst_zip_take)
  with m have "map_of (zip columns pr) col = Some v" by simp
  with c show "holds columns pr c" by simp
qed

lemma select_one_reliable:
  "\<not> faulty d (ops d) \<Longrightarrow> session d = Some table \<Longrightarrow>
   select_one columns w d = (Inr (\<exists>row \<in> set table. \<forall>c \<in> set w. holds columns row c), d\<lparr>ops := ops d + 1\<rparr>)"
  by (simp add: select_one_def)

lemma import_csv_data_reliable:
  assumes "fs path = Some (rows, None)" and "\<forall>n. \<not> faulty d n" and "session d \<noteq> None"
  shows "\<exists>cs. import_csv_data sc fs path bs d = (Inr (length (accepted sc rows)), flushed d cs) \<and>
           concat cs = accepted sc rows"
proof -
  from import_rows_no_fault [OF assms(2,3), of sc bs rows 0 "[]"]
  obtain cs b where
    r: "import_rows sc bs rows (0, [], d) = (length (concat cs), b, flushed d cs)"
    and c: "concat cs @ b = accepted sc rows"
    by auto
  have len: "length (accepted sc rows) = length (concat cs) + length b"
    using c [symmetric] by simp
  show ?thesis
  proof (cases "b = []")
    case True
    with r c len show ?thesis by (intro exI [of _ cs]) (simp add: import_csv_data_def assms(1))
  next
    case False
    have "execute_batch b (flushed d cs) = (Inr (), flushed d (cs @ [b]))"
      using assms(2,3) by (simp add: execute_batch_def flushed_def)
    with False r c len show ?thesis
      by (intro exI [of _ "cs @ [b]"]) (simp add: import_csv_data_def assms(1))
  qed
qed

text \<open>The Duplicate Guard on a sink that does not fail and holds the file's first row.\<close>

lemma guard_finds_first_row:
  assumes "distinct (map fst (COLUMN_DEFINITIONS sc))" and "\<not> faulty d (ops d)"
    and "fs path = Some (r # rest, err)" and "process_row sc r = Inr pr"
    and "session d = Some table" and "pr \<in> set table"
  shows "is_csv_file_imported sc fs path d = (True, d\<lparr>ops := ops d + 1\<rparr>)"
proof -
  from holds_self [OF assms(1), of pr] assms(6)
  have "\<exists>row \<in> set table. \<forall>c \<in> set (where_clause_pieces (map fst (COLUMN_DEFINITIONS sc)) pr).
          holds (map fst (COLUMN_DEFINITIONS sc)) row c"
    by blast
  with select_one_reliable [OF assms(2,5)] assms(3,4) show ?thesis
    by (simp add: is_csv_file_imported_def)
qed

lemma per_distinct: "distinct (map fst (COLUMN_DEFINITIONS import_per_to_postgres))"
  by (simp add: import_per_to_postgres_def)


section \<open>Importing a file twice\<close>




section \<open>The Table Provisioner: a second run\<close>

text \<open>
  A script whose \<^verbatim>\<open>create_table\<close> does not drop the table cannot run when the table exists:
  \<^verbatim>\<open>CREATE TABLE\<close> raises, \<^verbatim>\<open>main\<close> rolls back and exits with status 1, and the table is as it
  was.
\<close>

lemma main_existing_table:
  assumes "\<not> drops_table sc" and "durable d \<noteq> None"
  shows "fst (main sc dirs fs folder_path d) = 1 \<and> durable (snd (main sc dirs fs folder_path d)) = durable d"
  using assms
  by (simp add: main_def create_table_def create_table_stmt_def connect_def rollback_def)

text \<open>
  C4. The claim: with no drop before create, a second full run leaves the table with the
  data of both runs. The first run of \<^verbatim>\<open>import_per_to_postgres.py\<close> on a folder with one
  file of one row ends with status 0 and that row durable; the second run ends with
  status 1 in \<^verbatim>\<open>create_table\<close> and the table still holds the one row of the first run.
\<close>

theorem second_run_fails:
  "fst (main import_per_to_postgres [''per'' \<mapsto> [''1.csv'']]
          [''per/1.csv'' \<mapsto> ([[''RBID'' \<mapsto> Some ''a'']], None)] ''per'' no_table) = 0 \<and>
   durable (snd (main import_per_to_postgres [''per'' \<mapsto> [''1.csv'']]
          [''per/1.csv'' \<mapsto> ([[''RBID'' \<mapsto> Some ''a'']], None)] ''per'' no_table)) =
     Some (accepted import_per_to_postgres [[''RBID'' \<mapsto> Some ''a'']]) \<and>
   fst (main import_per_to_postgres [''per'' \<mapsto> [''1.csv'']]
          [''per/1.csv'' \<mapsto> ([[''RBID'' \<mapsto> Some ''a'']], None)] ''per''
          (snd (main import_per_to_postgres [''per'' \<mapsto> [''1.csv'']]
             [''per/1.csv'' \<mapsto> ([[''RBID'' \<mapsto> Some ''a'']], None)] ''per'' no_table))) = 1 \<and>
   durable (snd (main import_per_to_postgres [''per'' \<mapsto> [''1.csv'']]
          [''per/1.csv'' \<mapsto> ([[''RBID'' \<mapsto> Some ''a'']], None)] ''per''
          (snd (main import_per_to_postgres [''per'' \<mapsto> [''1.csv'']]
             [''per/1.csv'' \<mapsto> ([[''RBID'' \<mapsto> Some ''a'']], None)] ''per'' no_table)))) =
     Some (accepted import_per_to_postgres [[''RBID'' \<mapsto> Some ''a'']]) \<and>
   length (accepted import_per_to_postgres [[''RBID'' \<mapsto> Some ''a'']]) = 1"
proof -
  let ?sc = import_per_to_postgres
  let ?run = "main ?sc [''per'' \<mapsto> [''1.csv'']] [''per/1.csv'' \<mapsto> ([[''RBID'' \<mapsto> Some ''a'']], None)] ''per''"
  have files: "get_csv_files [''per'' \<mapsto> [''1.csv'']] ''per'' = Inr [''per/1.csv'']"
    by (simp add: get_csv_files_def glob_def endswith_def)
  have first: "fst (?run no_table) = 0 \<and>
      durable (snd (?run no_table)) = Some (accepted ?sc [[''RBID'' \<mapsto> Some ''a'']])"
    by (simp add: main_def files create_table_def create_table_stmt_def connect_def rollback_def
        create_indexes_def statistics_def is_csv_file_imported_def select_one_def
        import_multiple_files_def import_csv_data_def execute_batch_def commit_def Let_def
        no_table_def reliable_def rbid_row)
  then have "durable (snd (?run no_table)) \<noteq> None" by simp
  from main_existing_table [OF _ this, of ?sc] first
  have "fst (?run (snd (?run no_table))) = 1 \<and>
        durable (snd (?run (snd (?run no_table)))) = Some (accepted ?sc [[''RBID'' \<mapsto> Some ''a'']])"
    by simp
  moreover have "length (accepted ?sc [[''RBID'' \<mapsto> Some ''a'']]) = 1" by (simp add: rbid_row)
  ultimately show ?thesis using first by simp
qed

end
